theory Spec2Isabelle
  imports Main
begin

section \<open>Constants, panics and Go slicing\<close>

text \<open>
  Strings are byte lists, as Go's are. The three package constants of the renderer:
  the record terminator, the escape character (a backslash) and the placeholder
  character.
\<close>

definition EOL :: char where
  "EOL = CHR 0x0A"

definition ESCAPE :: char where
  "ESCAPE = CHR 0x5C"

definition PLACEHOLDER :: char where
  "PLACEHOLDER = CHR ''%''"

text \<open>
  The run-time panics the modelled code can raise: an index beyond a slice, a slice
  expression with bad bounds, and the use of a nil pointer.
\<close>

datatype panic = IndexOutOfRange | SliceBoundsOutOfRange | NilDereference

text \<open>\<open>xs[i]\<close>, \<open>s[lo:hi]\<close> and \<open>s[lo:]\<close> with Go's bounds checks.\<close>

definition go_index :: "'a list \<Rightarrow> nat \<Rightarrow> panic + 'a" where
  "go_index xs i = (if i < length xs then Inr (xs ! i) else Inl IndexOutOfRange)"

definition go_slice :: "string \<Rightarrow> nat \<Rightarrow> nat \<Rightarrow> panic + string" where
  "go_slice s lo hi =
     (if lo \<le> hi \<and> hi \<le> length s then Inr (take (hi - lo) (drop lo s))
      else Inl SliceBoundsOutOfRange)"

definition go_slice_from :: "string \<Rightarrow> nat \<Rightarrow> panic + string" where
  "go_slice_from s lo = go_slice s lo (length s)"

section \<open>Files and the operating system\<close>

text \<open>
  An open file (\<open>*os.File\<close>) is a descriptor together with the path it was opened
  on; a nil pointer is \<open>None\<close>. The operating system keeps the contents of every
  path, the descriptors that are open, and the next descriptor to hand out.
\<close>

datatype File = File (fd: nat) (name: string)

record os_state =
  contents :: "string \<Rightarrow> string"
  open_fds :: "nat set"
  next_fd :: nat

text \<open>
  \<open>os.OpenFile(name, O_WRONLY|O_APPEND|O_CREATE, 0644)\<close>. Whether the call succeeds is
  the environment's choice \<open>ok\<close>; on failure the returned pointer is nil.
\<close>

definition os_OpenFile :: "string \<Rightarrow> bool \<Rightarrow> os_state \<Rightarrow> File option \<times> os_state" where
  "os_OpenFile path ok os =
     (if ok then
        (Some (File (next_fd os) path),
         os\<lparr>open_fds := insert (next_fd os) (open_fds os), next_fd := Suc (next_fd os)\<rparr>)
      else (None, os))"

text \<open>\<open>(*os.File).Close\<close>: on a nil receiver it returns an error and does nothing.\<close>

definition File_Close :: "File option \<Rightarrow> os_state \<Rightarrow> os_state" where
  "File_Close f os =
     (case f of None \<Rightarrow> os
      | Some h \<Rightarrow> os\<lparr>open_fds := open_fds os - {fd h}\<rparr>)"

text \<open>
  \<open>(*os.File).Write\<close> in append mode: the bytes go to the end of the path's contents.
  On a nil or closed file nothing is written and an error is returned (\<open>False\<close>).
\<close>

definition File_Write :: "File option \<Rightarrow> string \<Rightarrow> os_state \<Rightarrow> os_state \<times> bool" where
  "File_Write f bs os =
     (case f of None \<Rightarrow> (os, False)
      | Some h \<Rightarrow>
          if fd h \<in> open_fds os
          then (os\<lparr>contents := (contents os)(name h := contents os (name h) @ bs)\<rparr>, True)
          else (os, False))"

section \<open>The buffered writer of the standard library\<close>

text \<open>
  \<open>bufio.Writer\<close>: the bytes accepted and not yet flushed, the sticky error of a
  failed flush, and the underlying sink. The capacity of the buffer is not modelled:
  a write is always accepted whole and reaches the sink at the next \<open>Flush\<close>.
  Once the error is set, writes accept nothing and return 0 until \<open>Reset\<close>.
\<close>

record bufio_Writer =
  buf :: string
  err :: bool
  wr :: "File option"

definition bufio_WriteString :: "bufio_Writer \<Rightarrow> string \<Rightarrow> bufio_Writer \<times> int" where
  "bufio_WriteString b s =
     (if err b then (b, 0) else (b\<lparr>buf := buf b @ s\<rparr>, int (length s)))"

definition bufio_WriteByte :: "bufio_Writer \<Rightarrow> char \<Rightarrow> bufio_Writer" where
  "bufio_WriteByte b c = (if err b then b else b\<lparr>buf := buf b @ [c]\<rparr>)"

definition bufio_Flush :: "bufio_Writer \<Rightarrow> os_state \<Rightarrow> bufio_Writer \<times> os_state" where
  "bufio_Flush b os =
     (if err b then (b, os)
      else if buf b = [] then (b, os)
      else (case File_Write (wr b) (buf b) os of
              (os', True) \<Rightarrow> (b\<lparr>buf := []\<rparr>, os')
            | (os', False) \<Rightarrow> (b\<lparr>err := True\<rparr>, os')))"

definition bufio_Reset :: "bufio_Writer \<Rightarrow> File option \<Rightarrow> bufio_Writer" where
  "bufio_Reset b w = b\<lparr>err := False, buf := [], wr := w\<rparr>"

definition bufio_NewWriterSize :: "File option \<Rightarrow> bufio_Writer" where
  "bufio_NewWriterSize w = \<lparr>buf = [], err = False, wr = w\<rparr>"

section \<open>Levels and the time cache\<close>

text \<open>
  The declarations of \<open>Level\<close>, of \<open>Level.prefix\<close> and of the package variable
  \<open>timeCache\<close> are not among the source files. The levels are named after the methods
  of the \<open>Writer\<close> interface; the prefix function and the time cache are parameters of
  every operation that reads them.
\<close>

datatype Level = DEBUG | TRACE | INFO | WARN | ERROR | CRITICAL

record TimeCache =
  format :: string
  date :: string
  dateYesterday :: string

section \<open>BLog: the buffered record writer\<close>

record BLog =
  level :: Level
  in' :: "File option"
  writer :: "bufio_Writer option"

definition NewBLog :: "File option \<Rightarrow> BLog" where
  "NewBLog f = \<lparr>level = DEBUG, in' = f, writer = Some (bufio_NewWriterSize f)\<rparr>"

text \<open>\<open>BLog.write\<close>: the plain message between the prefixes and the terminator.\<close>

definition BLog_write ::
  "(Level \<Rightarrow> string) \<Rightarrow> TimeCache \<Rightarrow> BLog \<Rightarrow> Level \<Rightarrow> string \<Rightarrow> panic + (BLog \<times> int)" where
  "BLog_write prefix tc blog lv fmt =
     (case writer blog of
        None \<Rightarrow> Inl NilDereference
      | Some w0 \<Rightarrow>
          let w1 = fst (bufio_WriteString w0 (format tc));
              w2 = fst (bufio_WriteString w1 (prefix lv));
              w3 = fst (bufio_WriteString w2 fmt);
              w4 = bufio_WriteByte w3 EOL
          in Inr (blog\<lparr>writer := Some w4\<rparr>,
                  int (length (format tc)) + int (length (prefix lv)) + int (length fmt) + 1))"

subsection \<open>The placeholder scanner of \<open>BLog.writef\<close>\<close>

text \<open>
  The local variables of the loop: \<open>tag\<close>, \<open>tagPos\<close>, \<open>escape\<close>, \<open>n\<close>, \<open>last\<close>
  and \<open>size\<close>, together with the buffered writer the loop appends to.
\<close>

record scan =
  st_tag :: bool
  st_tagPos :: nat
  st_escape :: bool
  st_n :: nat
  st_last :: nat
  st_size :: int
  st_w :: bufio_Writer

definition verbs :: string where
  "verbs = ''dfvboxXcptsTqUeEgG''"

text \<open>
  One iteration of \<open>for i, v := range format\<close>. The loop ranges over runes, \<open>i\<close>
  being the byte offset of the rune. A rune beyond ASCII matches no case of the switch,
  and its first byte is not the placeholder, so such an iteration changes nothing; the
  bytes it skips are all beyond ASCII too. Iterating over every byte offset is therefore
  the same computation, and \<open>v\<close> is the byte at \<open>i\<close>.
  \<open>sprintf\<close> stands for \<open>fmt.Sprintf\<close> applied to one directive and one operand.
\<close>

definition writef_step ::
  "(string \<Rightarrow> 'a \<Rightarrow> string) \<Rightarrow> string \<Rightarrow> 'a list \<Rightarrow> nat \<Rightarrow> scan \<Rightarrow> panic + scan" where
  "writef_step sprintf fmt args i st =
     (let v = fmt ! i in
      if st_tag st then
        (if v \<in> set verbs then
           (case go_slice fmt (st_tagPos st) (i + 1) of
              Inl e \<Rightarrow> Inl e
            | Inr directive \<Rightarrow>
                (case go_index args (st_n st) of
                   Inl e \<Rightarrow> Inl e
                 | Inr a \<Rightarrow>
                     let (w', s) = bufio_WriteString (st_w st) (sprintf directive a)
                     in Inr (st\<lparr>st_escape := False, st_w := w', st_size := st_size st + s,
                               st_n := st_n st + 1, st_last := i + 1, st_tag := False\<rparr>)))
         else if v = ESCAPE then
           (if st_escape st
            then Inr (st\<lparr>st_w := bufio_WriteByte (st_w st) ESCAPE,
                         st_size := st_size st + 1, st_escape := False\<rparr>)
            else Inr (st\<lparr>st_escape := True\<rparr>))
         else Inr st)
      else
        (if PLACEHOLDER = fmt ! i \<and> \<not> st_escape st then
           (case go_slice fmt (st_last st) i of
              Inl e \<Rightarrow> Inl e
            | Inr lit \<Rightarrow>
                let (w', s) = bufio_WriteString (st_w st) lit
                in Inr (st\<lparr>st_tag := True, st_tagPos := i, st_w := w',
                          st_size := st_size st + s, st_escape := False\<rparr>))
         else Inr st))"

fun writef_loop ::
  "(string \<Rightarrow> 'a \<Rightarrow> string) \<Rightarrow> string \<Rightarrow> 'a list \<Rightarrow> nat list \<Rightarrow> scan \<Rightarrow> panic + scan" where
  "writef_loop sprintf fmt args [] st = Inr st"
| "writef_loop sprintf fmt args (i # is) st =
     (case writef_step sprintf fmt args i st of
        Inl e \<Rightarrow> Inl e
      | Inr st' \<Rightarrow> writef_loop sprintf fmt args is st')"

text \<open>The state in which the loop starts: both prefixes written and counted.\<close>

definition writef_init :: "(Level \<Rightarrow> string) \<Rightarrow> TimeCache \<Rightarrow> Level \<Rightarrow> bufio_Writer \<Rightarrow> scan" where
  "writef_init prefix tc lv w0 =
     (let w1 = fst (bufio_WriteString w0 (format tc));
          w2 = fst (bufio_WriteString w1 (prefix lv))
      in \<lparr>st_tag = False, st_tagPos = 0, st_escape = False, st_n = 0, st_last = 0,
          st_size = int (length (format tc)) + int (length (prefix lv)), st_w = w2\<rparr>)"

text \<open>After the loop: the remaining literal tail and the terminator.\<close>

definition writef_finish :: "string \<Rightarrow> scan \<Rightarrow> panic + (bufio_Writer \<times> int)" where
  "writef_finish fmt st =
     (case go_slice_from fmt (st_last st) of
        Inl e \<Rightarrow> Inl e
      | Inr tail \<Rightarrow>
          let w' = fst (bufio_WriteString (st_w st) tail);
              w'' = bufio_WriteByte w' EOL
          in Inr (w'', st_size st + int (length tail) + 1))"

definition BLog_writef ::
  "(Level \<Rightarrow> string) \<Rightarrow> (string \<Rightarrow> 'a \<Rightarrow> string) \<Rightarrow> TimeCache \<Rightarrow> BLog \<Rightarrow> Level \<Rightarrow> string \<Rightarrow> 'a list
     \<Rightarrow> panic + (BLog \<times> int)" where
  "BLog_writef prefix sprintf tc blog lv fmt args =
     (case writer blog of
        None \<Rightarrow> Inl NilDereference
      | Some w0 \<Rightarrow>
          (case writef_loop sprintf fmt args [0..<length fmt] (writef_init prefix tc lv w0) of
             Inl e \<Rightarrow> Inl e
           | Inr st \<Rightarrow>
               (case writef_finish fmt st of
                  Inl e \<Rightarrow> Inl e
                | Inr (w', sz) \<Rightarrow> Inr (blog\<lparr>writer := Some w'\<rparr>, sz))))"

text \<open>
  The number of placeholders of a format that a verb closes, and that therefore take an
  argument: outside a placeholder (\<open>tg\<close> false) the placeholder character opens one,
  inside (\<open>tg\<close> true) the first verb closes it.
\<close>

fun closed_placeholders :: "bool \<Rightarrow> string \<Rightarrow> nat" where
  "closed_placeholders tg [] = 0"
| "closed_placeholders tg (c # cs) =
     (if tg then (if c \<in> set verbs then Suc (closed_placeholders False cs)
                  else closed_placeholders True cs)
      else (if c = PLACEHOLDER then closed_placeholders True cs
            else closed_placeholders False cs))"

text \<open>
  The escape bytes the body of a placeholder emits while no verb closes it: inside a
  placeholder every second escape character is written out. \<open>e\<close> is the value of
  \<open>escape\<close> on entry, \<open>cs\<close> the characters scanned.
\<close>

definition pending_escapes :: "bool \<Rightarrow> string \<Rightarrow> nat" where
  "pending_escapes e cs = (length (filter (\<lambda>c. c = ESCAPE) cs) + (if e then 1 else 0)) div 2"

text \<open>\<open>BLog.flush\<close>, \<open>BLog.Close\<close> and \<open>BLog.resetFile\<close>.\<close>

definition BLog_flush :: "BLog \<Rightarrow> os_state \<Rightarrow> panic + (BLog \<times> os_state)" where
  "BLog_flush blog os =
     (case writer blog of
        None \<Rightarrow> Inl NilDereference
      | Some w \<Rightarrow>
          let (w', os') = bufio_Flush w os
          in Inr (blog\<lparr>writer := Some w'\<rparr>, os'))"

definition BLog_Close :: "BLog \<Rightarrow> os_state \<Rightarrow> panic + (BLog \<times> os_state)" where
  "BLog_Close blog os =
     (case writer blog of
        None \<Rightarrow> Inl NilDereference
      | Some w \<Rightarrow>
          let (w', os') = bufio_Flush w os
          in Inr (blog\<lparr>writer := None\<rparr>, os'))"

definition BLog_resetFile :: "BLog \<Rightarrow> File option \<Rightarrow> os_state \<Rightarrow> panic + (BLog \<times> os_state)" where
  "BLog_resetFile blog f os =
     (case writer blog of
        None \<Rightarrow> Inl NilDereference
      | Some w \<Rightarrow>
          let (w', os') = bufio_Flush w os
          in Inr (blog\<lparr>in' := f, writer := Some (bufio_Reset w' f)\<rparr>, os'))"

section \<open>baseFileWriter: the rotating file writer\<close>

text \<open>
  \<open>ByteSize\<close> is \<open>int64\<close> and the counters are \<open>int\<close>, taken as 64 bits wide: an
  addition wraps around in two's complement.
\<close>

definition wrap64 :: "int \<Rightarrow> int" where
  "wrap64 x = (x + 2 ^ 63) mod 2 ^ 64 - 2 ^ 63"

definition MB :: int where
  "MB = 2 ^ 20"

definition DefaultRotateSize :: int where
  "DefaultRotateSize = 500 * MB"

definition DefaultRotateLines :: int where
  "DefaultRotateLines = 2000000"

text \<open>The decimal rendering of \<open>%d\<close> in the rotated file names.\<close>

fun digits :: "nat \<Rightarrow> string" where
  "digits n =
     (if n < 10 then [''0123456789'' ! n]
      else digits (n div 10) @ [''0123456789'' ! (n mod 10)])"

declare digits.simps [simp del]

definition itoa :: "int \<Rightarrow> string" where
  "itoa i = (if i < 0 then CHR ''-'' # digits (nat (- i)) else digits (nat i))"

text \<open>
  The fields of the struct, without its locks and its two unused signal channels
  (the field \<open>file\<close> is written \<open>file'\<close>).
  \<open>logSizeChan\<close> is the queue of sizes sent and not yet received; its capacity, and
  the blocking of a sender on a full queue, are not modelled.
\<close>

record baseFileWriter =
  fileName :: string
  file' :: "File option"
  blog :: "BLog option"
  closed :: bool
  timeRotated :: bool
  lineRotated :: bool
  rotateLines :: int
  currentLines :: int
  sizeRotated :: bool
  rotateSize :: int
  currentSize :: int
  sizeRotateTimes :: int
  logSizeChan :: "int list"
  colored :: bool

type_synonym system = "baseFileWriter \<times> os_state"

text \<open>
  \<open>newBaseFileWriter\<close>. When the file cannot be opened the writer is returned as far as
  it was built, with the error (\<open>Inl\<close>); the remaining fields keep Go's zero values.
\<close>

definition newBaseFileWriter :: "string \<Rightarrow> bool \<Rightarrow> os_state \<Rightarrow> system + system" where
  "newBaseFileWriter path ok os =
     (let (f, os') = os_OpenFile path ok os;
          w = \<lparr>fileName = path, file' = f, blog = None, closed = False,
               timeRotated = False, lineRotated = False, rotateLines = 0, currentLines = 0,
               sizeRotated = False, rotateSize = 0, currentSize = 0, sizeRotateTimes = 0,
               logSizeChan = [], colored = False\<rparr>
      in if \<not> ok then Inl (w, os')
         else Inr (w\<lparr>blog := Some (NewBLog f), closed := False, timeRotated := False,
                     lineRotated := False, rotateSize := DefaultRotateSize, currentSize := 0,
                     sizeRotated := False, rotateLines := DefaultRotateLines,
                     currentLines := 0, colored := False\<rparr>, os'))"

subsection \<open>The setters of the rotation policy\<close>

definition SetTimeRotated :: "bool \<Rightarrow> baseFileWriter \<Rightarrow> baseFileWriter" where
  "SetTimeRotated t w = w\<lparr>timeRotated := t\<rparr>"

definition SetRotateSize :: "int \<Rightarrow> baseFileWriter \<Rightarrow> baseFileWriter" where
  "SetRotateSize r w =
     (if r > 0 then w\<lparr>sizeRotated := True, rotateSize := r\<rparr>
      else w\<lparr>sizeRotated := False\<rparr>)"

definition SetRotateLines :: "int \<Rightarrow> baseFileWriter \<Rightarrow> baseFileWriter" where
  "SetRotateLines r w =
     (if r > 0 then w\<lparr>lineRotated := True, rotateLines := r\<rparr>
      else w\<lparr>lineRotated := False\<rparr>)"

subsection \<open>write, writef and Close\<close>

text \<open>
  The methods \<open>write\<close>, \<open>writef\<close> and \<open>Close\<close> of the file writer carry the name
  of their receiver. First the deferred function of \<open>write\<close> and \<open>writef\<close>: the size
  goes to the queue.
\<close>

definition send_size :: "int \<Rightarrow> baseFileWriter \<Rightarrow> baseFileWriter" where
  "send_size sz w =
     (if sizeRotated w \<or> lineRotated w then w\<lparr>logSizeChan := logSizeChan w @ [sz]\<rparr> else w)"

definition baseFileWriter_write ::
  "(Level \<Rightarrow> string) \<Rightarrow> TimeCache \<Rightarrow> baseFileWriter \<Rightarrow> Level \<Rightarrow> string \<Rightarrow> panic + baseFileWriter" where
  "baseFileWriter_write prefix tc w lv fmt =
     (if closed w then Inr (send_size 0 w)
      else (case blog w of
              None \<Rightarrow> Inl NilDereference
            | Some b \<Rightarrow>
                (case BLog_write prefix tc b lv fmt of
                   Inl e \<Rightarrow> Inl e
                 | Inr (b', sz) \<Rightarrow> Inr (send_size sz (w\<lparr>blog := Some b'\<rparr>)))))"

definition baseFileWriter_writef ::
  "(Level \<Rightarrow> string) \<Rightarrow> (string \<Rightarrow> 'a \<Rightarrow> string) \<Rightarrow> TimeCache \<Rightarrow> baseFileWriter \<Rightarrow> Level \<Rightarrow> string
     \<Rightarrow> 'a list \<Rightarrow> panic + baseFileWriter" where
  "baseFileWriter_writef prefix sprintf tc w lv fmt args =
     (if closed w then Inr (send_size 0 w)
      else (case blog w of
              None \<Rightarrow> Inl NilDereference
            | Some b \<Rightarrow>
                (case BLog_writef prefix sprintf tc b lv fmt args of
                   Inl e \<Rightarrow> Inl e
                 | Inr (b', sz) \<Rightarrow> Inr (send_size sz (w\<lparr>blog := Some b'\<rparr>)))))"

definition baseFileWriter_Close :: "system \<Rightarrow> panic + system" where
  "baseFileWriter_Close s =
     (let (w, os) = s in
      if closed w then Inr (w, os)
      else (case blog w of
              None \<Rightarrow> Inl NilDereference
            | Some b \<Rightarrow>
                (case BLog_Close b os of
                   Inl e \<Rightarrow> Inl e
                 | Inr (b', os') \<Rightarrow> Inr (w\<lparr>blog := None, closed := True\<rparr>, os'))))"

subsection \<open>The daemon\<close>

text \<open>
  The four statements both rotations end with: open the new file (the error is
  discarded), close the old one, reset the buffered writer onto the new one, and keep
  the new pointer.
\<close>

definition swap_file :: "string \<Rightarrow> bool \<Rightarrow> system \<Rightarrow> panic + system" where
  "swap_file path ok s =
     (let (w, os) = s;
          (f, os1) = os_OpenFile path ok os;
          os2 = File_Close (file' w) os1
      in (case blog w of
            None \<Rightarrow> Inl NilDereference
          | Some b \<Rightarrow>
              (case BLog_resetFile b f os2 of
                 Inl e \<Rightarrow> Inl e
               | Inr (b', os3) \<Rightarrow> Inr (w\<lparr>blog := Some b', file' := f\<rparr>, os3))))"

text \<open>
  What the \<open>select\<close> of the daemon can receive: the flush tick, the time tick (with
  the date \<open>time.Now()\<close> formats to), and a size from the queue. The two rotating
  cases also carry whether their \<open>os.OpenFile\<close> will succeed.
\<close>

datatype stimulus = FlushTick | TimeTick string bool | LogSize bool

datatype 's flow = Break 's | Continue 's

text \<open>
  One round of \<open>DaemonLoop\<close>. A \<open>LogSize\<close> on an empty queue cannot happen (the
  receive is not ready) and is modelled as a round that changes nothing.
\<close>

definition daemon_step :: "TimeCache \<Rightarrow> stimulus \<Rightarrow> system \<Rightarrow> panic + system flow" where
  "daemon_step tc ev s =
     (let (w, os) = s in
      case ev of
        FlushTick \<Rightarrow>
          if closed w then Inr (Break (w, os))
          else (case blog w of
                  None \<Rightarrow> Inl NilDereference
                | Some b \<Rightarrow>
                    (case BLog_flush b os of
                       Inl e \<Rightarrow> Inl e
                     | Inr (b', os') \<Rightarrow> Inr (Continue (w\<lparr>blog := Some b'\<rparr>, os'))))
      | TimeTick now ok \<Rightarrow>
          if closed w then Inr (Break (w, os))
          else if timeRotated w \<and> now \<noteq> date tc then
            (let w1 = w\<lparr>sizeRotateTimes := 0\<rparr>;
                 path = fileName w1 @ ''.'' @ dateYesterday tc
             in (case swap_file path ok (w1, os) of
                   Inl e \<Rightarrow> Inl e
                 | Inr s' \<Rightarrow> Inr (Continue s')))
          else Inr (Continue (w, os))
      | LogSize ok \<Rightarrow>
          (case logSizeChan w of
             [] \<Rightarrow> Inr (Continue (w, os))
           | sz # queue \<Rightarrow>
               let w0 = w\<lparr>logSizeChan := queue\<rparr> in
               if closed w0 then Inr (Break (w0, os))
               else if \<not> sizeRotated w0 \<and> \<not> lineRotated w0 then Inr (Continue (w0, os))
               else
                 let w1 = w0\<lparr>currentSize := wrap64 (currentSize w0 + sz),
                             currentLines := wrap64 (currentLines w0 + 1)\<rparr>
                 in if (sizeRotated w1 \<and> currentSize w1 > rotateSize w1)
                       \<or> (lineRotated w1 \<and> currentLines w1 > rotateLines w1)
                    then
                      (let w2 = w1\<lparr>sizeRotateTimes := wrap64 (sizeRotateTimes w1 + 1),
                                   currentSize := 0, currentLines := 0\<rparr>;
                           path =
                             (if timeRotated w2
                              then fileName w2 @ ''.'' @ date tc @ ''.''
                                     @ itoa (wrap64 (sizeRotateTimes w2 + 1))
                              else fileName w2 @ ''.'' @ itoa (wrap64 (sizeRotateTimes w2 + 1)))
                       in (case swap_file path ok (w2, os) of
                             Inl e \<Rightarrow> Inl e
                           | Inr s' \<Rightarrow> Inr (Continue s')))
                    else Inr (Continue (w1, os))))"

text \<open>
  The daemon over a finite sequence of stimuli, each with the time cache as it stands
  when the stimulus arrives. The loop ends at the first \<open>Break\<close>.
\<close>

fun daemon :: "(TimeCache \<times> stimulus) list \<Rightarrow> system \<Rightarrow> panic + system" where
  "daemon [] s = Inr s"
| "daemon ((tc, ev) # evs) s =
     (case daemon_step tc ev s of
        Inl e \<Rightarrow> Inl e
      | Inr (Break s') \<Rightarrow> Inr s'
      | Inr (Continue s') \<Rightarrow> daemon evs s')"

section \<open>Concrete inputs\<close>

text \<open>
  The inputs at which the theorems below are evaluated: a level prefix, a time cache,
  an operating system with no file yet, and \<open>fmt.Sprintf\<close> on the directive \<open>%s\<close>
  with a string operand, which renders the operand itself (the examples use no other
  directive).
\<close>

definition ex_prefix :: "Level \<Rightarrow> string" where
  "ex_prefix lv = ''[INFO] ''"

definition ex_tc :: TimeCache where
  "ex_tc = \<lparr>format = ''10:00 '', date = ''2015-08-02'', dateYesterday = ''2015-08-01''\<rparr>"

definition ex_os :: os_state where
  "ex_os = \<lparr>contents = (\<lambda>path. []), open_fds = {}, next_fd = 3\<rparr>"

definition Sprintf_s :: "string \<Rightarrow> string \<Rightarrow> string" where
  "Sprintf_s directive operand = operand"

definition ex_blog :: BLog where
  "ex_blog = NewBLog (Some (File 3 ''app.log''))"

text \<open>
  The writer \<open>newBaseFileWriter\<close> returns for \<open>app.log\<close> on that system, and the
  system after the call.
\<close>

definition ex_writer :: baseFileWriter where
  "ex_writer =
     \<lparr>fileName = ''app.log'', file' = Some (File 3 ''app.log''), blog = Some ex_blog,
      closed = False, timeRotated = False, lineRotated = False,
      rotateLines = DefaultRotateLines, currentLines = 0, sizeRotated = False,
      rotateSize = DefaultRotateSize, currentSize = 0, sizeRotateTimes = 0,
      logSizeChan = [], colored = False\<rparr>"

definition ex_os1 :: os_state where
  "ex_os1 = \<lparr>contents = (\<lambda>path. []), open_fds = {3}, next_fd = 4\<rparr>"

text \<open>
  That writer with time and size rotation switched on (threshold 10 bytes) and the size
  of one record of 19 bytes waiting in the queue.
\<close>

definition ex_rotating :: baseFileWriter where
  "ex_rotating = (SetRotateSize 10 (SetTimeRotated True ex_writer))\<lparr>logSizeChan := [19]\<rparr>"

text \<open>
  Sequencing for the examples: a call of \<open>write\<close>, and a run of the daemon, on the
  result of what came before; and the writer and the operating system of a result.
\<close>

definition then_write :: "panic + system \<Rightarrow> Level \<Rightarrow> string \<Rightarrow> panic + system" where
  "then_write r lv msg =
     (case r of
        Inl e \<Rightarrow> Inl e
      | Inr (w, os) \<Rightarrow>
          (case baseFileWriter_write ex_prefix ex_tc w lv msg of
             Inl e \<Rightarrow> Inl e
           | Inr w' \<Rightarrow> Inr (w', os)))"

definition then_daemon :: "panic + system \<Rightarrow> (TimeCache \<times> stimulus) list \<Rightarrow> panic + system" where
  "then_daemon r evs = (case r of Inl e \<Rightarrow> Inl e | Inr s \<Rightarrow> daemon evs s)"

definition then_Close :: "panic + system \<Rightarrow> panic + system" where
  "then_Close r = (case r of Inl e \<Rightarrow> Inl e | Inr s \<Rightarrow> baseFileWriter_Close s)"

definition result_writer :: "panic + system \<Rightarrow> baseFileWriter option" where
  "result_writer r = (case r of Inl e \<Rightarrow> None | Inr (w, os) \<Rightarrow> Some w)"

definition result_os :: "panic + system \<Rightarrow> os_state option" where
  "result_os r = (case r of Inl e \<Rightarrow> None | Inr (w, os) \<Rightarrow> Some os)"

definition result_contents :: "panic + system \<Rightarrow> string \<Rightarrow> string option" where
  "result_contents r path = (case r of Inl e \<Rightarrow> None | Inr (w, os) \<Rightarrow> Some (contents os path))"

text \<open>
  A rotation whose open fails: size rotation at 10 bytes, one record of 19 bytes written
  and flushed, then its size received while \<open>os.OpenFile\<close> fails.
\<close>

definition ex_failed_rotation :: "panic + system" where
  "ex_failed_rotation =
     then_daemon
       (then_write (Inr (SetRotateSize 10 ex_writer, ex_os1)) INFO ''hello'')
       [(ex_tc, FlushTick), (ex_tc, LogSize False)]"

text \<open>
  The writer after \<open>SetRotateLines(3)\<close> and one call of \<open>write\<close>, its record still
  in the buffer.
\<close>

definition ex_logged :: baseFileWriter where
  "ex_logged =
     (SetRotateLines 3 ex_writer)
       \<lparr>blog := Some (ex_blog\<lparr>writer := Some \<lparr>buf = ''10:00 [INFO] hello'' @ [EOL], err = False,
                                            wr = Some (File 3 ''app.log'')\<rparr>\<rparr>),
        logSizeChan := [19]\<rparr>"



section \<open>The renderer: what a call appends and returns\<close>

lemmas ex_defs =
  ex_prefix_def ex_tc_def ex_os_def Sprintf_s_def ex_blog_def NewBLog_def bufio_NewWriterSize_def
  ex_writer_def ex_os1_def then_write_def then_daemon_def then_Close_def result_writer_def
  result_os_def result_contents_def ex_failed_rotation_def

lemmas scan_defs =
  Let_def BLog_writef_def writef_init_def writef_finish_def writef_step_def go_slice_def
  go_slice_from_def go_index_def verbs_def bufio_WriteString_def bufio_WriteByte_def
  PLACEHOLDER_def ESCAPE_def EOL_def

lemma go_slice_Inr:
  "go_slice s lo hi = Inr x \<Longrightarrow> x = take (hi - lo) (drop lo s) \<and> lo \<le> hi \<and> hi \<le> length s"
  by (auto simp: go_slice_def split: if_splits)

text \<open>
  A step that does not panic only appends to the buffer, and adds to \<open>size\<close> the
  number of bytes it appended; so does the whole loop.
\<close>

lemma writef_step_appends:
  assumes "writef_step sprintf fmt args i st = Inr st'" and "\<not> err (st_w st)"
  shows "\<not> err (st_w st') \<and> wr (st_w st') = wr (st_w st) \<and>
         (\<exists>out. buf (st_w st') = buf (st_w st) @ out
            \<and> st_size st' = st_size st + int (length out))"
  using assms
  by (auto simp: writef_step_def Let_def bufio_WriteString_def bufio_WriteByte_def
           split: if_splits sum.splits)

lemma writef_loop_appends:
  assumes "writef_loop sprintf fmt args is st = Inr st'" and "\<not> err (st_w st)"
  shows "\<not> err (st_w st') \<and> wr (st_w st') = wr (st_w st) \<and>
         (\<exists>out. buf (st_w st') = buf (st_w st) @ out
            \<and> st_size st' = st_size st + int (length out))"
  using assms
proof (induction "is" arbitrary: st)
  case Nil
  then show ?case by simp
next
  case (Cons i "is")
  from Cons.prems(1) obtain st1 where s1: "writef_step sprintf fmt args i st = Inr st1"
    and l1: "writef_loop sprintf fmt args is st1 = Inr st'"
    by (auto split: sum.splits)
  from writef_step_appends [OF s1 Cons.prems(2)] obtain o1 where
    e1: "\<not> err (st_w st1)" "wr (st_w st1) = wr (st_w st)"
      "buf (st_w st1) = buf (st_w st) @ o1" "st_size st1 = st_size st + int (length o1)"
    by blast
  from Cons.IH [OF l1 e1(1)] obtain o2 where
    e2: "\<not> err (st_w st')" "wr (st_w st') = wr (st_w st1)"
      "buf (st_w st') = buf (st_w st1) @ o2" "st_size st' = st_size st1 + int (length o2)"
    by blast
  have "buf (st_w st') = buf (st_w st) @ (o1 @ o2)
        \<and> st_size st' = st_size st + int (length (o1 @ o2))"
    using e1 e2 by simp
  then show ?case using e1 e2 by metis
qed

text \<open>
  The loop from offset \<open>k\<close> on returns when the arguments left are enough for the
  placeholders still to be closed, and panics on the index otherwise; no slice
  expression of the loop is ever out of bounds. So \<open>writef\<close> on a live writer panics
  exactly when the format closes more placeholders than there are arguments.
\<close>

lemma upt_head: "k < n \<Longrightarrow> [k..<n] = k # [Suc k..<n]"
  by (rule upt_conv_Cons)

lemma writef_loop_total:
  assumes "st_last st \<le> k" and "st_tag st \<longrightarrow> st_tagPos st \<le> k"
    and "st_tag st \<or> \<not> st_escape st" and "k \<le> length fmt"
    and "closed_placeholders (st_tag st) (drop k fmt) + st_n st \<le> length args"
  shows "\<exists>st'. writef_loop sprintf fmt args [k..<length fmt] st = Inr st'
           \<and> st_last st' \<le> length fmt"
  using assms
proof (induction "length fmt - k" arbitrary: k st)
  case 0
  then show ?case by simp
next
  case (Suc m)
  then have klt: "k < length fmt" by simp
  have dr: "drop k fmt = fmt ! k # drop (Suc k) fmt"
    using klt by (simp add: Cons_nth_drop_Suc)
  have m: "m = length fmt - Suc k" using Suc.hyps(2) by simp
  have "\<exists>st1. writef_step sprintf fmt args k st = Inr st1
          \<and> st_last st1 \<le> Suc k \<and> (st_tag st1 \<longrightarrow> st_tagPos st1 \<le> Suc k)
          \<and> (st_tag st1 \<or> \<not> st_escape st1)
          \<and> closed_placeholders (st_tag st1) (drop (Suc k) fmt) + st_n st1 \<le> length args"
  proof (cases "st_tag st")
    case True
    show ?thesis
    proof (cases "fmt ! k \<in> set verbs")
      case v: True
      show ?thesis
        using Suc.prems klt True v unfolding dr
        by (simp add: writef_step_def Let_def go_slice_def go_index_def split: prod.splits)
    next
      case v: False
      show ?thesis
        using Suc.prems klt True v unfolding dr
        by (simp add: writef_step_def Let_def)
    qed
  next
    case False
    show ?thesis
      using Suc.prems klt False unfolding dr
      by (auto simp: writef_step_def Let_def go_slice_def split: prod.splits)
  qed
  then obtain st1 where s: "writef_step sprintf fmt args k st = Inr st1"
    and i: "st_last st1 \<le> Suc k" "st_tag st1 \<longrightarrow> st_tagPos st1 \<le> Suc k"
      "st_tag st1 \<or> \<not> st_escape st1"
      "closed_placeholders (st_tag st1) (drop (Suc k) fmt) + st_n st1 \<le> length args"
    by blast
  have "Suc k \<le> length fmt" using klt by simp
  from Suc.hyps(1) [OF m i(1,2,3) this i(4)] obtain st' where
    "writef_loop sprintf fmt args [Suc k..<length fmt] st1 = Inr st'" "st_last st' \<le> length fmt"
    by blast
  then show ?case using s klt by (simp add: upt_head)
qed

lemma writef_loop_panics:
  assumes "st_last st \<le> k" and "st_tag st \<longrightarrow> st_tagPos st \<le> k"
    and "st_tag st \<or> \<not> st_escape st" and "k \<le> length fmt"
    and "st_n st \<le> length args"
    and "length args < closed_placeholders (st_tag st) (drop k fmt) + st_n st"
  shows "writef_loop sprintf fmt args [k..<length fmt] st = Inl IndexOutOfRange"
  using assms
proof (induction "length fmt - k" arbitrary: k st)
  case 0
  then show ?case by simp
next
  case (Suc m)
  then have klt: "k < length fmt" by simp
  have dr: "drop k fmt = fmt ! k # drop (Suc k) fmt"
    using klt by (simp add: Cons_nth_drop_Suc)
  have m: "m = length fmt - Suc k" using Suc.hyps(2) by simp
  have "writef_step sprintf fmt args k st = Inl IndexOutOfRange
        \<or> (\<exists>st1. writef_step sprintf fmt args k st = Inr st1
          \<and> st_last st1 \<le> Suc k \<and> (st_tag st1 \<longrightarrow> st_tagPos st1 \<le> Suc k)
          \<and> (st_tag st1 \<or> \<not> st_escape st1) \<and> st_n st1 \<le> length args
          \<and> length args < closed_placeholders (st_tag st1) (drop (Suc k) fmt) + st_n st1)"
  proof (cases "st_tag st")
    case True
    show ?thesis
    proof (cases "fmt ! k \<in> set verbs")
      case v: True
      show ?thesis
        using Suc.prems klt True v unfolding dr
        by (simp add: writef_step_def Let_def go_slice_def go_index_def split: prod.splits)
    next
      case v: False
      show ?thesis
        using Suc.prems klt True v unfolding dr
        by (simp add: writef_step_def Let_def)
    qed
  next
    case False
    show ?thesis
      using Suc.prems klt False unfolding dr
      by (auto simp: writef_step_def Let_def go_slice_def split: prod.splits)
  qed
  then show ?case
  proof
    assume "writef_step sprintf fmt args k st = Inl IndexOutOfRange"
    then show ?thesis using klt by (simp add: upt_head)
  next
    assume "\<exists>st1. writef_step sprintf fmt args k st = Inr st1
          \<and> st_last st1 \<le> Suc k \<and> (st_tag st1 \<longrightarrow> st_tagPos st1 \<le> Suc k)
          \<and> (st_tag st1 \<or> \<not> st_escape st1) \<and> st_n st1 \<le> length args
          \<and> length args < closed_placeholders (st_tag st1) (drop (Suc k) fmt) + st_n st1"
    then obtain st1 where s: "writef_step sprintf fmt args k st = Inr st1"
      and i: "st_last st1 \<le> Suc k" "st_tag st1 \<longrightarrow> st_tagPos st1 \<le> Suc k"
        "st_tag st1 \<or> \<not> st_escape st1"
      and j: "st_n st1 \<le> length args"
        "length args < closed_placeholders (st_tag st1) (drop (Suc k) fmt) + st_n st1"
      by blast
    have "Suc k \<le> length fmt" using klt by simp
    from Suc.hyps(1) [OF m i this j] s klt show ?thesis by (simp add: upt_head)
  qed
qed

lemma writef_panics_iff:
  assumes "writer bl = Some w"
  shows "(BLog_writef prefix sprintf tc bl lv fmt args = Inl IndexOutOfRange)
           = (length args < closed_placeholders False fmt)"
    and "length args < closed_placeholders False fmt
         \<or> (\<exists>bl' sz. BLog_writef prefix sprintf tc bl lv fmt args = Inr (bl', sz))"
proof -
  let ?st0 = "writef_init prefix tc lv w"
  have i0: "st_last ?st0 \<le> 0" "st_tag ?st0 \<longrightarrow> st_tagPos ?st0 \<le> 0"
    "st_tag ?st0 \<or> \<not> st_escape ?st0" "0 \<le> length fmt" "st_n ?st0 \<le> length args"
    "\<not> st_tag ?st0" "st_n ?st0 = 0"
    by (simp_all add: writef_init_def Let_def)
  show "(BLog_writef prefix sprintf tc bl lv fmt args = Inl IndexOutOfRange)
           = (length args < closed_placeholders False fmt)"
  proof (cases "length args < closed_placeholders False fmt")
    case True
    then have "length args < closed_placeholders (st_tag ?st0) (drop 0 fmt) + st_n ?st0"
      using i0(6,7) by simp
    from writef_loop_panics [OF i0(1,2,3,4,5) this, of sprintf] True assms
    show ?thesis by (simp add: BLog_writef_def)
  next
    case False
    then have "closed_placeholders (st_tag ?st0) (drop 0 fmt) + st_n ?st0 \<le> length args"
      using i0(6,7) by simp
    from writef_loop_total [OF i0(1,2,3,4) this, of sprintf] obtain st' where
      l: "writef_loop sprintf fmt args [0..<length fmt] ?st0 = Inr st'" "st_last st' \<le> length fmt"
      by blast
    then show ?thesis
      using False assms
      by (simp add: BLog_writef_def writef_finish_def go_slice_from_def go_slice_def Let_def)
  qed
  show "length args < closed_placeholders False fmt
         \<or> (\<exists>bl' sz. BLog_writef prefix sprintf tc bl lv fmt args = Inr (bl', sz))"
  proof (cases "length args < closed_placeholders False fmt")
    case True
    then show ?thesis by simp
  next
    case False
    then have "closed_placeholders (st_tag ?st0) (drop 0 fmt) + st_n ?st0 \<le> length args"
      using i0(6,7) by simp
    from writef_loop_total [OF i0(1,2,3,4) this, of sprintf] obtain st' where
      l: "writef_loop sprintf fmt args [0..<length fmt] ?st0 = Inr st'" "st_last st' \<le> length fmt"
      by blast
    then show ?thesis
      using assms
      by (simp add: BLog_writef_def writef_finish_def go_slice_from_def go_slice_def Let_def)
  qed
qed

text \<open>
  C7. On a writer whose buffer is in no error state, \<open>write\<close> appends exactly the time
  prefix, the level prefix, the message as it is and the terminator, and returns the
  number of these bytes. \<open>writef\<close> returns whenever the arguments are at least as
  many as the placeholders the format closes; and whenever it returns, it has appended
  the time prefix, the level prefix, a rendered body and the terminator, and the size it
  returns is the number of bytes appended.
\<close>

theorem write_and_writef_sizes:
  assumes "writer bl = Some w" and "\<not> err w"
  shows "BLog_write prefix tc bl lv msg =
           Inr (bl\<lparr>writer := Some (w\<lparr>buf := buf w @ format tc @ prefix lv @ msg @ [EOL]\<rparr>)\<rparr>,
                int (length (format tc @ prefix lv @ msg @ [EOL])))
         \<and> (closed_placeholders False fmt \<le> length args \<longrightarrow>
              (\<exists>bl' sz. BLog_writef prefix sprintf tc bl lv fmt args = Inr (bl', sz)))
         \<and> (\<forall>bl' sz. BLog_writef prefix sprintf tc bl lv fmt args = Inr (bl', sz) \<longrightarrow>
              (\<exists>w' body. bl' = bl\<lparr>writer := Some w'\<rparr>
                 \<and> buf w' = buf w @ format tc @ prefix lv @ body @ [EOL]
                 \<and> sz = int (length (format tc @ prefix lv @ body @ [EOL]))))"
proof (intro conjI allI impI)
  show "BLog_write prefix tc bl lv msg =
           Inr (bl\<lparr>writer := Some (w\<lparr>buf := buf w @ format tc @ prefix lv @ msg @ [EOL]\<rparr>)\<rparr>,
                int (length (format tc @ prefix lv @ msg @ [EOL])))"
    using assms by (simp add: BLog_write_def Let_def bufio_WriteString_def bufio_WriteByte_def)
next
  assume "closed_placeholders False fmt \<le> length args"
  then have "\<not> length args < closed_placeholders False fmt" by simp
  with writef_panics_iff(2) [OF assms(1)]
  show "\<exists>bl' sz. BLog_writef prefix sprintf tc bl lv fmt args = Inr (bl', sz)"
    by blast
next
  fix bl' sz
  assume r: "BLog_writef prefix sprintf tc bl lv fmt args = Inr (bl', sz)"
  let ?st0 = "writef_init prefix tc lv w"
  from r assms(1) obtain st w' where
    l: "writef_loop sprintf fmt args [0..<length fmt] ?st0 = Inr st"
    and f: "writef_finish fmt st = Inr (w', sz)" and b: "bl' = bl\<lparr>writer := Some w'\<rparr>"
    by (auto simp: BLog_writef_def split: sum.splits)
  have i0: "\<not> err (st_w ?st0)" "buf (st_w ?st0) = buf w @ format tc @ prefix lv"
    "st_size ?st0 = int (length (format tc @ prefix lv))"
    using assms(2) by (simp_all add: writef_init_def Let_def bufio_WriteString_def)
  from writef_loop_appends [OF l i0(1)] obtain out where
    o: "\<not> err (st_w st)" "buf (st_w st) = buf (st_w ?st0) @ out"
      "st_size st = st_size ?st0 + int (length out)"
    by blast
  from f obtain tail where t: "go_slice_from fmt (st_last st) = Inr tail"
    and w': "w' = bufio_WriteByte (fst (bufio_WriteString (st_w st) tail)) EOL"
    and sz: "sz = st_size st + int (length tail) + 1"
    by (auto simp: writef_finish_def Let_def split: sum.splits)
  have "buf w' = buf w @ format tc @ prefix lv @ (out @ tail) @ [EOL]"
    using w' o i0 by (simp add: bufio_WriteString_def bufio_WriteByte_def)
  moreover have "sz = int (length (format tc @ prefix lv @ (out @ tail) @ [EOL]))"
    using sz o i0 by simp
  ultimately show "\<exists>w' body. bl' = bl\<lparr>writer := Some w'\<rparr>
                 \<and> buf w' = buf w @ format tc @ prefix lv @ body @ [EOL]
                 \<and> sz = int (length (format tc @ prefix lv @ body @ [EOL]))"
    using b by blast
qed

theorem write_and_writef_sizes_witness:
  "writer ex_blog = Some (bufio_NewWriterSize (Some (File 3 ''app.log'')))
   \<and> \<not> err (bufio_NewWriterSize (Some (File 3 ''app.log'')))
   \<and> BLog_write ex_prefix ex_tc ex_blog INFO ''x=%s'' =
       Inr (ex_blog\<lparr>writer := Some \<lparr>buf = ''10:00 [INFO] x=%s'' @ [EOL], err = False,
                                      wr = Some (File 3 ''app.log'')\<rparr>\<rparr>, 18)
   \<and> closed_placeholders False ''x=%s'' \<le> length [''1'']
   \<and> (\<exists>bl' sz. BLog_writef ex_prefix Sprintf_s ex_tc ex_blog INFO ''x=%s'' [''1'']
                   = Inr (bl', sz))
   \<and> BLog_writef ex_prefix Sprintf_s ex_tc ex_blog INFO ''x=%s'' [''1''] =
       Inr (ex_blog\<lparr>writer := Some \<lparr>buf = ''10:00 [INFO] x=1'' @ [EOL], err = False,
                                      wr = Some (File 3 ''app.log'')\<rparr>\<rparr>, 17)
   \<and> (\<exists>body. ''10:00 [INFO] x=1'' @ [EOL] = format ex_tc @ ex_prefix INFO @ body @ [EOL]
          \<and> (17::int) = int (length (format ex_tc @ ex_prefix INFO @ body @ [EOL])))"
proof -
  let ?w = "bufio_NewWriterSize (Some (File 3 ''app.log''))"
  have h1: "writer ex_blog = Some ?w" by (simp add: ex_defs)
  have h2: "\<not> err ?w" by (simp add: ex_defs)
  have r: "BLog_writef ex_prefix Sprintf_s ex_tc ex_blog INFO ''x=%s'' [''1''] =
       Inr (ex_blog\<lparr>writer := Some \<lparr>buf = ''10:00 [INFO] x=1'' @ [EOL], err = False,
                                      wr = Some (File 3 ''app.log'')\<rparr>\<rparr>, 17)"
    by (simp add: ex_defs scan_defs)
  note t = write_and_writef_sizes [OF h1 h2, where prefix = ex_prefix and tc = ex_tc
      and lv = INFO and msg = "''x=%s''" and sprintf = Sprintf_s and fmt = "''x=%s''"
      and args = "[''1'']"]
  have h3: "closed_placeholders False ''x=%s'' \<le> length [''1'']"
    by (simp add: PLACEHOLDER_def verbs_def)
  from t h3 have ex: "\<exists>bl' sz. BLog_writef ex_prefix Sprintf_s ex_tc ex_blog INFO ''x=%s'' [''1'']
                        = Inr (bl', sz)"
    by blast
  from t have w: "BLog_write ex_prefix ex_tc ex_blog INFO ''x=%s'' =
       Inr (ex_blog\<lparr>writer := Some \<lparr>buf = ''10:00 [INFO] x=%s'' @ [EOL], err = False,
                                      wr = Some (File 3 ''app.log'')\<rparr>\<rparr>, 18)"
    by (simp add: ex_defs)
  from t r obtain w' body where
    "ex_blog\<lparr>writer := Some \<lparr>buf = ''10:00 [INFO] x=1'' @ [EOL], err = False,
                                      wr = Some (File 3 ''app.log'')\<rparr>\<rparr> = ex_blog\<lparr>writer := Some w'\<rparr>"
    "buf w' = buf ?w @ format ex_tc @ ex_prefix INFO @ body @ [EOL]"
    "(17::int) = int (length (format ex_tc @ ex_prefix INFO @ body @ [EOL]))"
    by blast
  then have "\<exists>body. ''10:00 [INFO] x=1'' @ [EOL] = format ex_tc @ ex_prefix INFO @ body @ [EOL]
          \<and> (17::int) = int (length (format ex_tc @ ex_prefix INFO @ body @ [EOL]))"
    by (auto simp: ex_defs)
  with h1 h2 h3 ex w r show ?thesis by blast
qed

section \<open>The renderer: arguments and escapes\<close>

text \<open>
  C1. The claim is that \<open>writef\<close> never panics when the format has more placeholders
  than there are arguments. The code reads \<open>args[n]\<close> with no check: on an open
  writer, whatever its state, the format \<open>%d\<close> with no argument panics with an index
  out of range; and in general \<open>writef\<close> on a live buffered writer panics so exactly
  when the format closes more placeholders than there are arguments.
\<close>

theorem writef_panics_on_missing_argument:
  "baseFileWriter_writef prefix sprintf tc
     (w\<lparr>closed := False, blog := Some (b\<lparr>writer := Some bw\<rparr>)\<rparr>) lv ''%d'' []
   = Inl IndexOutOfRange
   \<and> (BLog_writef prefix sprintf tc (b\<lparr>writer := Some bw\<rparr>) lv fmt args = Inl IndexOutOfRange)
     = (length args < closed_placeholders False fmt)"
proof -
  have "writer (b\<lparr>writer := Some bw\<rparr>) = Some bw" by simp
  from writef_panics_iff(1) [OF this]
  have g: "(BLog_writef prefix sprintf tc (b\<lparr>writer := Some bw\<rparr>) lv fmt args
              = Inl IndexOutOfRange) = (length args < closed_placeholders False fmt)" .
  have c: "baseFileWriter_writef prefix sprintf tc
     (w\<lparr>closed := False, blog := Some (b\<lparr>writer := Some bw\<rparr>)\<rparr>) lv ''%d'' []
   = Inl IndexOutOfRange"
    by (simp add: baseFileWriter_writef_def scan_defs)
  from c g show ?thesis by (rule conjI)
qed

text \<open>
  C2. The claim is that a backslash before the placeholder character keeps it from
  opening a placeholder. The code looks at the escape character only inside a
  placeholder: on the format backslash, \<open>%\<close>, \<open>d\<close> with one argument the backslash is
  emitted as a literal and the placeholder \<open>%d\<close> is substituted by the argument.
\<close>

theorem escaped_placeholder_is_substituted:
  "BLog_writef prefix sprintf tc (b\<lparr>writer := Some (bw\<lparr>err := False\<rparr>)\<rparr>) lv
     [ESCAPE, PLACEHOLDER, CHR ''d''] [a]
   = Inr (b\<lparr>writer := Some (bw\<lparr>err := False,
              buf := buf bw @ format tc @ prefix lv @ [ESCAPE] @ sprintf ''%d'' a @ [EOL]\<rparr>)\<rparr>,
          int (length (format tc @ prefix lv @ [ESCAPE] @ sprintf ''%d'' a @ [EOL])))"
  by (simp add: scan_defs)

text \<open>
  Outside a placeholder the loop does nothing until it meets the placeholder character.
\<close>

lemma literal_run:
  assumes "\<not> st_tag st" and "\<not> st_escape st" and "\<forall>i\<in>set is. fmt ! i \<noteq> PLACEHOLDER"
  shows "writef_loop sprintf fmt args is st = Inr st"
  using assms
  by (induction "is") (auto simp: writef_step_def Let_def)

text \<open>
  A format without the placeholder character is emitted as it is, escape characters
  included, between the prefixes and the terminator, and the size returned is the number
  of bytes appended.
\<close>

theorem format_without_placeholder_is_verbatim:
  assumes "writer bl = Some w" and "\<not> err w" and "PLACEHOLDER \<notin> set fmt"
  shows "BLog_writef prefix sprintf tc bl lv fmt args =
           Inr (bl\<lparr>writer := Some (w\<lparr>buf := buf w @ format tc @ prefix lv @ fmt @ [EOL]\<rparr>)\<rparr>,
                int (length (format tc @ prefix lv @ fmt @ [EOL])))"
proof -
  let ?st0 = "writef_init prefix tc lv w"
  have np: "\<forall>i\<in>set [0..<length fmt]. fmt ! i \<noteq> PLACEHOLDER"
    using assms(3) by (auto simp: in_set_conv_nth)
  have i0: "\<not> st_tag ?st0" "\<not> st_escape ?st0"
    by (simp_all add: writef_init_def Let_def)
  have l: "writef_loop sprintf fmt args [0..<length fmt] ?st0 = Inr ?st0"
    using literal_run [OF i0 np] .
  show ?thesis
    using assms(1,2) l
    by (simp add: BLog_writef_def writef_finish_def writef_init_def go_slice_from_def
          go_slice_def Let_def bufio_WriteString_def bufio_WriteByte_def)
qed

theorem format_without_placeholder_is_verbatim_witness:
  "writer ex_blog = Some (bufio_NewWriterSize (Some (File 3 ''app.log'')))
   \<and> \<not> err (bufio_NewWriterSize (Some (File 3 ''app.log'')))
   \<and> PLACEHOLDER \<notin> set [CHR ''a'', ESCAPE, CHR ''b'']
   \<and> BLog_writef ex_prefix Sprintf_s ex_tc ex_blog INFO [CHR ''a'', ESCAPE, CHR ''b''] [''1'']
       = Inr (ex_blog\<lparr>writer := Some \<lparr>buf = ''10:00 [INFO] a'' @ [ESCAPE] @ ''b'' @ [EOL],
                                      err = False, wr = Some (File 3 ''app.log'')\<rparr>\<rparr>, 17)"
proof -
  let ?w = "bufio_NewWriterSize (Some (File 3 ''app.log''))"
  have h1: "writer ex_blog = Some ?w" by (simp add: ex_defs)
  have h2: "\<not> err ?w" by (simp add: ex_defs)
  have h3: "PLACEHOLDER \<notin> set [CHR ''a'', ESCAPE, CHR ''b'']"
    by (simp add: PLACEHOLDER_def ESCAPE_def)
  from format_without_placeholder_is_verbatim [OF h1 h2 h3, of ex_prefix Sprintf_s ex_tc INFO
      "[''1'']"]
  have "BLog_writef ex_prefix Sprintf_s ex_tc ex_blog INFO [CHR ''a'', ESCAPE, CHR ''b''] [''1'']
       = Inr (ex_blog\<lparr>writer := Some \<lparr>buf = ''10:00 [INFO] a'' @ [ESCAPE] @ ''b'' @ [EOL],
                                      err = False, wr = Some (File 3 ''app.log'')\<rparr>\<rparr>, 17)"
    by (simp add: ex_defs)
  with h1 h2 h3 show ?thesis by blast
qed

section \<open>The renderer: a placeholder that no verb closes\<close>

text \<open>
  The loop over a concatenation of offsets is the loop over the first part followed by
  the loop over the second; \<open>last\<close> never passes the offsets scanned; and \<open>escape\<close>
  is only ever set inside a placeholder.
\<close>

lemma writef_loop_append:
  "writef_loop sprintf fmt args (xs @ ys) st =
     (case writef_loop sprintf fmt args xs st of
        Inl e \<Rightarrow> Inl e
      | Inr st' \<Rightarrow> writef_loop sprintf fmt args ys st')"
  by (induction xs arbitrary: st) (auto split: sum.splits)

lemma writef_step_last_le:
  assumes "writef_step sprintf fmt args i st = Inr st'" and "st_last st \<le> m" and "i < m"
  shows "st_last st' \<le> m"
  using assms
  by (auto simp: writef_step_def Let_def split: if_splits sum.splits prod.splits)

lemma writef_loop_last_le:
  assumes "writef_loop sprintf fmt args is st = Inr st'" and "st_last st \<le> m"
    and "\<forall>i\<in>set is. i < m"
  shows "st_last st' \<le> m"
  using assms
proof (induction "is" arbitrary: st)
  case Nil
  then show ?case by simp
next
  case (Cons i "is")
  from Cons.prems(1) obtain st1 where s1: "writef_step sprintf fmt args i st = Inr st1"
    and l1: "writef_loop sprintf fmt args is st1 = Inr st'"
    by (auto split: sum.splits)
  have "st_last st1 \<le> m"
    using writef_step_last_le [OF s1 Cons.prems(2)] Cons.prems(3) by simp
  then show ?case using Cons.IH [OF l1] Cons.prems(3) by simp
qed

lemma writef_step_escape_only_in_tag:
  assumes "writef_step sprintf fmt args i st = Inr st'" and "st_tag st \<or> \<not> st_escape st"
  shows "st_tag st' \<or> \<not> st_escape st'"
  using assms
  by (auto simp: writef_step_def Let_def split: if_splits sum.splits prod.splits)

lemma writef_loop_escape_only_in_tag:
  assumes "writef_loop sprintf fmt args is st = Inr st'" and "st_tag st \<or> \<not> st_escape st"
  shows "st_tag st' \<or> \<not> st_escape st'"
  using assms
proof (induction "is" arbitrary: st)
  case Nil
  then show ?case by simp
next
  case (Cons i "is")
  from Cons.prems(1) obtain st1 where s1: "writef_step sprintf fmt args i st = Inr st1"
    and l1: "writef_loop sprintf fmt args is st1 = Inr st'"
    by (auto split: sum.splits)
  show ?case
    using Cons.IH [OF l1 writef_step_escape_only_in_tag [OF s1 Cons.prems(2)]] .
qed

text \<open>
  Inside a placeholder, over offsets that hold no verb, the loop does not panic, stays
  inside the placeholder, leaves \<open>last\<close> alone and emits escape bytes only.
\<close>

lemma unterminated_run:
  assumes "st_tag st" and "\<not> err (st_w st)" and "\<forall>i\<in>set is. fmt ! i \<notin> set verbs"
  shows "\<exists>st'. writef_loop sprintf fmt args is st = Inr st' \<and> st_tag st'
           \<and> st_last st' = st_last st \<and> \<not> err (st_w st')
           \<and> buf (st_w st') = buf (st_w st)
                 @ replicate (pending_escapes (st_escape st) (map ((!) fmt) is)) ESCAPE
           \<and> st_size st' = st_size st
                 + int (pending_escapes (st_escape st) (map ((!) fmt) is))"
  using assms
proof (induction "is" arbitrary: st)
  case Nil
  then show ?case by (simp add: pending_escapes_def)
next
  case (Cons i "is")
  let ?v = "fmt ! i"
  have nv: "?v \<notin> set verbs" using Cons.prems(3) by simp
  have rest: "\<forall>j\<in>set is. fmt ! j \<notin> set verbs" using Cons.prems(3) by simp
  consider (esc_on) "?v = ESCAPE" "st_escape st" | (esc_off) "?v = ESCAPE" "\<not> st_escape st"
    | (other) "?v \<noteq> ESCAPE" by blast
  then show ?case
  proof cases
    case esc_on
    let ?st1 = "st\<lparr>st_w := bufio_WriteByte (st_w st) ESCAPE,
                     st_size := st_size st + 1, st_escape := False\<rparr>"
    have s: "writef_step sprintf fmt args i st = Inr ?st1"
      using Cons.prems(1) nv esc_on by (simp add: writef_step_def Let_def)
    have p1: "st_tag ?st1" "\<not> err (st_w ?st1)"
      using Cons.prems by (simp_all add: bufio_WriteByte_def)
    from Cons.IH [OF p1 rest] obtain st' where
      r: "writef_loop sprintf fmt args is ?st1 = Inr st'" "st_tag st'"
        "st_last st' = st_last ?st1" "\<not> err (st_w st')"
        "buf (st_w st') = buf (st_w ?st1)
           @ replicate (pending_escapes (st_escape ?st1) (map ((!) fmt) is)) ESCAPE"
        "st_size st' = st_size ?st1 + int (pending_escapes (st_escape ?st1) (map ((!) fmt) is))"
      by blast
    have k: "pending_escapes (st_escape st) (map ((!) fmt) (i # is))
             = Suc (pending_escapes False (map ((!) fmt) is))"
      using esc_on by (simp add: pending_escapes_def)
    have b1: "buf (st_w ?st1) = buf (st_w st) @ [ESCAPE]"
      using Cons.prems(2) by (simp add: bufio_WriteByte_def)
    show ?thesis
      using s r k b1 by (simp add: replicate_append_same)
  next
    case esc_off
    let ?st1 = "st\<lparr>st_escape := True\<rparr>"
    have s: "writef_step sprintf fmt args i st = Inr ?st1"
      using Cons.prems(1) nv esc_off by (simp add: writef_step_def Let_def)
    have p1: "st_tag ?st1" "\<not> err (st_w ?st1)"
      using Cons.prems by simp_all
    from Cons.IH [OF p1 rest] obtain st' where
      r: "writef_loop sprintf fmt args is ?st1 = Inr st'" "st_tag st'"
        "st_last st' = st_last ?st1" "\<not> err (st_w st')"
        "buf (st_w st') = buf (st_w ?st1)
           @ replicate (pending_escapes (st_escape ?st1) (map ((!) fmt) is)) ESCAPE"
        "st_size st' = st_size ?st1 + int (pending_escapes (st_escape ?st1) (map ((!) fmt) is))"
      by blast
    have k: "pending_escapes (st_escape st) (map ((!) fmt) (i # is))
             = pending_escapes True (map ((!) fmt) is)"
      using esc_off by (simp add: pending_escapes_def)
    show ?thesis
      using s r k by simp
  next
    case other
    have s: "writef_step sprintf fmt args i st = Inr st"
      using Cons.prems(1) nv other by (simp add: writef_step_def Let_def)
    from Cons.IH [OF Cons.prems(1,2) rest] obtain st' where
      r: "writef_loop sprintf fmt args is st = Inr st'" "st_tag st'"
        "st_last st' = st_last st" "\<not> err (st_w st')"
        "buf (st_w st') = buf (st_w st)
           @ replicate (pending_escapes (st_escape st) (map ((!) fmt) is)) ESCAPE"
        "st_size st' = st_size st + int (pending_escapes (st_escape st) (map ((!) fmt) is))"
      by blast
    have k: "pending_escapes (st_escape st) (map ((!) fmt) (i # is))
             = pending_escapes (st_escape st) (map ((!) fmt) is)"
      using other by (simp add: pending_escapes_def)
    show ?thesis
      using s r k by simp
  qed
qed

text \<open>The characters at the offsets from \<open>a\<close> on are the string from \<open>a\<close> on.\<close>

lemma map_nth_upt_drop: "map ((!) xs) [a..<length xs] = drop a xs"
proof -
  have "drop a xs = drop a (map ((!) xs) [0..<length xs])"
    by (simp only: map_nth)
  also have "\<dots> = map ((!) xs) (drop a [0..<length xs])"
    by (simp only: drop_map)
  also have "\<dots> = map ((!) xs) [a..<length xs]"
    by simp
  finally show ?thesis by simp
qed

text \<open>
  C10. Let the placeholder character stand at offset \<open>p\<close>, reached outside a
  placeholder (so that it opens one), and let no verb follow it. Then \<open>writef\<close>
  returns, and what it appends after the output of the offsets before \<open>p\<close> is: the
  literal span from \<open>last\<close> to \<open>p\<close> (emitted when the placeholder opens), the escape
  bytes of the placeholder body, the same span again followed by the rest of the format
  from \<open>p\<close> (the tail from \<open>last\<close>, which was not advanced), and the terminator. The
  size returned counts the span twice.
\<close>

theorem unterminated_placeholder_repeats_literal:
  assumes "writer bl = Some w" and "\<not> err w"
    and "p < length fmt"
    and "writef_loop sprintf fmt args [0..<p] (writef_init prefix tc lv w) = Inr st"
    and "\<not> st_tag st"
    and "fmt ! p = PLACEHOLDER"
    and "\<forall>c\<in>set (drop (Suc p) fmt). c \<notin> set verbs"
  shows "\<exists>w'. BLog_writef prefix sprintf tc bl lv fmt args =
             Inr (bl\<lparr>writer := Some w'\<rparr>,
                  st_size st + 2 * int (p - st_last st)
                    + int (pending_escapes False (drop (Suc p) fmt))
                    + int (length (drop p fmt)) + 1)
          \<and> st_last st \<le> p
          \<and> buf w' = buf (st_w st)
                @ take (p - st_last st) (drop (st_last st) fmt)
                @ replicate (pending_escapes False (drop (Suc p) fmt)) ESCAPE
                @ take (p - st_last st) (drop (st_last st) fmt)
                @ drop p fmt @ [EOL]"
proof -
  let ?st0 = "writef_init prefix tc lv w"
  let ?l = "st_last st"
  let ?span = "take (p - ?l) (drop ?l fmt)"
  let ?k = "pending_escapes False (drop (Suc p) fmt)"
  have e0: "\<not> err (st_w ?st0)" "st_tag ?st0 \<or> \<not> st_escape ?st0" "st_last ?st0 \<le> p"
    using assms(2) by (simp_all add: writef_init_def Let_def bufio_WriteString_def)
  have ne: "\<not> err (st_w st)"
    using writef_loop_appends [OF assms(4) e0(1)] by blast
  have nesc: "\<not> st_escape st"
    using writef_loop_escape_only_in_tag [OF assms(4) e0(2)] assms(5) by blast
  have lp: "?l \<le> p"
    using writef_loop_last_le [OF assms(4) e0(3)] by simp
  have len_span: "length ?span = p - ?l"
    using lp assms(3) by simp
  \<comment> \<open>the step that opens the placeholder\<close>
  let ?st1 = "st\<lparr>st_tag := True, st_tagPos := p, st_w := (st_w st)\<lparr>buf := buf (st_w st) @ ?span\<rparr>,
                  st_size := st_size st + int (length ?span), st_escape := False\<rparr>"
  have s1: "writef_step sprintf fmt args p st = Inr ?st1"
    using assms(3,5,6) nesc ne lp
    by (simp add: writef_step_def Let_def go_slice_def bufio_WriteString_def)
  \<comment> \<open>the rest of the format, inside the placeholder\<close>
  have chars: "map ((!) fmt) [Suc p..<length fmt] = drop (Suc p) fmt"
    by (rule map_nth_upt_drop)
  have nv: "\<forall>i\<in>set [Suc p..<length fmt]. fmt ! i \<notin> set verbs"
  proof
    fix i assume "i \<in> set [Suc p..<length fmt]"
    then have "fmt ! i \<in> set (map ((!) fmt) [Suc p..<length fmt])" by (simp only: set_map) (rule imageI)
    then show "fmt ! i \<notin> set verbs" using assms(7) chars by simp
  qed
  have t1: "st_tag ?st1" "\<not> err (st_w ?st1)" using ne by simp_all
  from unterminated_run [OF t1 nv, of sprintf args] obtain st2 where
    r: "writef_loop sprintf fmt args [Suc p..<length fmt] ?st1 = Inr st2"
      "st_last st2 = ?l" "\<not> err (st_w st2)"
      "buf (st_w st2) = buf (st_w st) @ ?span @ replicate ?k ESCAPE"
      "st_size st2 = st_size st + int (length ?span) + int ?k"
    by (auto simp: chars)
  have split: "[0..<length fmt] = [0..<p] @ [p] @ [Suc p..<length fmt]"
  proof -
    have "[0..<length fmt] = [0..<p] @ [p..<length fmt]"
      using assms(3) upt_add_eq_append [of 0 p "length fmt - p"] by simp
    then show ?thesis using assms(3) by (simp add: upt_conv_Cons)
  qed
  have loop: "writef_loop sprintf fmt args [0..<length fmt] ?st0 = Inr st2"
    unfolding split using assms(4) s1 r(1) by (simp add: writef_loop_append)
  have tail: "go_slice_from fmt ?l = Inr (?span @ drop p fmt)"
  proof -
    have "drop ?l fmt = ?span @ drop p fmt"
      using lp append_take_drop_id [of "p - ?l" "drop ?l fmt"] by simp
    then show ?thesis using lp assms(3) by (simp add: go_slice_from_def go_slice_def)
  qed
  let ?w' = "bufio_WriteByte (fst (bufio_WriteString (st_w st2) (?span @ drop p fmt))) EOL"
  have fin: "writef_finish fmt st2 =
               Inr (?w', st_size st2 + int (length (?span @ drop p fmt)) + 1)"
    using tail r(2) by (simp add: writef_finish_def Let_def)
  have res: "BLog_writef prefix sprintf tc bl lv fmt args =
               Inr (bl\<lparr>writer := Some ?w'\<rparr>, st_size st2 + int (length (?span @ drop p fmt)) + 1)"
    using assms(1) loop fin by (simp add: BLog_writef_def)
  have sz: "st_size st2 + int (length (?span @ drop p fmt)) + 1
            = st_size st + 2 * int (p - ?l) + int ?k + int (length (drop p fmt)) + 1"
    using r(5) len_span by simp
  have bf: "buf ?w' = buf (st_w st) @ ?span @ replicate ?k ESCAPE @ ?span @ drop p fmt @ [EOL]"
    using r(3,4) by (simp add: bufio_WriteString_def bufio_WriteByte_def)
  show ?thesis
    using res sz bf lp by (intro exI [of _ ?w']) simp
qed

theorem unterminated_placeholder_repeats_literal_witness:
  "writer ex_blog = Some (bufio_NewWriterSize (Some (File 3 ''app.log'')))
   \<and> (7::nat) < length ''x=%s, y%''
   \<and> ''x=%s, y%'' ! 7 = PLACEHOLDER
   \<and> writef_loop Sprintf_s ''x=%s, y%'' [''1''] [0..<7]
         (writef_init ex_prefix ex_tc INFO (bufio_NewWriterSize (Some (File 3 ''app.log''))))
       = Inr \<lparr>st_tag = False, st_tagPos = 2, st_escape = False, st_n = 1, st_last = 4,
              st_size = 16,
              st_w = \<lparr>buf = ''10:00 [INFO] x=1'', err = False, wr = Some (File 3 ''app.log'')\<rparr>\<rparr>
   \<and> (\<exists>w'. BLog_writef ex_prefix Sprintf_s ex_tc ex_blog INFO ''x=%s, y%'' [''1'']
               = Inr (ex_blog\<lparr>writer := Some w'\<rparr>, 24)
            \<and> buf w' = ''10:00 [INFO] x=1'' @ '', y'' @ '', y'' @ ''%'' @ [EOL])"
proof -
  let ?w = "bufio_NewWriterSize (Some (File 3 ''app.log''))"
  let ?st = "\<lparr>st_tag = False, st_tagPos = 2, st_escape = False, st_n = 1, st_last = 4,
              st_size = 16,
              st_w = \<lparr>buf = ''10:00 [INFO] x=1'', err = False, wr = Some (File 3 ''app.log'')\<rparr>\<rparr>"
  have h1: "writer ex_blog = Some ?w" by (simp add: ex_defs)
  have h2: "\<not> err ?w" by (simp add: ex_defs)
  have h3: "(7::nat) < length ''x=%s, y%''" by simp
  have h4: "writef_loop Sprintf_s ''x=%s, y%'' [''1''] [0..<7] (writef_init ex_prefix ex_tc INFO ?w)
            = Inr ?st"
    by (simp add: ex_defs scan_defs upt_rec)
  have h5: "\<not> st_tag ?st" by simp
  have h6: "''x=%s, y%'' ! 7 = PLACEHOLDER" by (simp add: PLACEHOLDER_def)
  have h7: "\<forall>c\<in>set (drop (Suc 7) ''x=%s, y%''). c \<notin> set verbs" by simp
  have k: "pending_escapes False (drop (Suc 7) ''x=%s, y%'') = 0"
    by (simp add: pending_escapes_def)
  from unterminated_placeholder_repeats_literal [OF h1 h2 h3 h4 h5 h6 h7]
  have "\<exists>w'. BLog_writef ex_prefix Sprintf_s ex_tc ex_blog INFO ''x=%s, y%'' [''1'']
               = Inr (ex_blog\<lparr>writer := Some w'\<rparr>, 24)
            \<and> buf w' = ''10:00 [INFO] x=1'' @ '', y'' @ '', y'' @ ''%'' @ [EOL]"
    by (simp add: pending_escapes_def)
  with h1 h3 h4 h6 show ?thesis by blast
qed

section \<open>The rotation policy\<close>

lemmas file_defs =
  Let_def os_OpenFile_def File_Close_def File_Write_def bufio_Flush_def bufio_Reset_def
  BLog_flush_def BLog_Close_def BLog_resetFile_def BLog_write_def bufio_WriteString_def
  bufio_WriteByte_def EOL_def

lemmas daemon_defs =
  daemon_step_def swap_file_def baseFileWriter_write_def baseFileWriter_Close_def send_size_def
  SetTimeRotated_def SetRotateSize_def SetRotateLines_def wrap64_def itoa_def digits.simps
  DefaultRotateSize_def DefaultRotateLines_def MB_def

lemmas ex_rot_defs = ex_rotating_def SetRotateSize_def SetTimeRotated_def ex_writer_def ex_blog_def
  NewBLog_def bufio_NewWriterSize_def ex_tc_def DefaultRotateSize_def MB_def DefaultRotateLines_def

text \<open>The example writer is the one the constructor returns.\<close>

lemma newBaseFileWriter_example:
  "newBaseFileWriter ''app.log'' True ex_os = Inr (ex_writer, ex_os1)"
  by (simp add: newBaseFileWriter_def ex_defs file_defs)

text \<open>
  C9. Each of the three setters changes nothing but the flag and the threshold of its
  own policy; in particular the flags and thresholds of the other two policies are left
  as they were.
\<close>

theorem setters_are_independent:
  "(\<exists>t. SetTimeRotated x w = w\<lparr>timeRotated := t\<rparr>)
   \<and> (\<exists>f t. SetRotateSize r w = w\<lparr>sizeRotated := f, rotateSize := t\<rparr>)
   \<and> (\<exists>f t. SetRotateLines n w = w\<lparr>lineRotated := f, rotateLines := t\<rparr>)
   \<and> sizeRotated (SetTimeRotated x w) = sizeRotated w
   \<and> rotateSize (SetTimeRotated x w) = rotateSize w
   \<and> lineRotated (SetTimeRotated x w) = lineRotated w
   \<and> rotateLines (SetTimeRotated x w) = rotateLines w
   \<and> timeRotated (SetRotateSize r w) = timeRotated w
   \<and> lineRotated (SetRotateSize r w) = lineRotated w
   \<and> rotateLines (SetRotateSize r w) = rotateLines w
   \<and> timeRotated (SetRotateLines n w) = timeRotated w
   \<and> sizeRotated (SetRotateLines n w) = sizeRotated w
   \<and> rotateSize (SetRotateLines n w) = rotateSize w"
proof -
  have a: "\<exists>t. SetTimeRotated x w = w\<lparr>timeRotated := t\<rparr>"
    by (auto simp: SetTimeRotated_def)
  have b: "\<exists>f t. SetRotateSize r w = w\<lparr>sizeRotated := f, rotateSize := t\<rparr>"
  proof (cases "r > 0")
    case True
    then show ?thesis by (auto simp: SetRotateSize_def)
  next
    case False
    then have "SetRotateSize r w = w\<lparr>sizeRotated := False, rotateSize := rotateSize w\<rparr>"
      by (simp add: SetRotateSize_def)
    then show ?thesis by blast
  qed
  have c: "\<exists>f t. SetRotateLines n w = w\<lparr>lineRotated := f, rotateLines := t\<rparr>"
  proof (cases "n > 0")
    case True
    then show ?thesis by (auto simp: SetRotateLines_def)
  next
    case False
    then have "SetRotateLines n w = w\<lparr>lineRotated := False, rotateLines := rotateLines w\<rparr>"
      by (simp add: SetRotateLines_def)
    then show ?thesis by blast
  qed
  show ?thesis
    using a b c by (simp add: SetTimeRotated_def SetRotateSize_def SetRotateLines_def)
qed

section \<open>The daemon: counters and rotations\<close>

text \<open>
  The end of a rotation on a writer whose \<open>BLog\<close> and buffered writer are there: the
  old file is closed first, the buffer is then flushed to it, and the writer is reset
  onto whatever the open returned.
\<close>

lemma swap_file_eq:
  assumes "blog w = Some b" and "writer b = Some bw"
  shows "swap_file path ok (w, os) =
           Inr (w\<lparr>blog := Some (b\<lparr>in' := fst (os_OpenFile path ok os),
                     writer := Some (bufio_Reset
                        (fst (bufio_Flush bw (File_Close (file' w) (snd (os_OpenFile path ok os)))))
                        (fst (os_OpenFile path ok os)))\<rparr>),
                  file' := fst (os_OpenFile path ok os)\<rparr>,
                snd (bufio_Flush bw (File_Close (file' w) (snd (os_OpenFile path ok os)))))"
  using assms
  by (simp add: swap_file_def BLog_resetFile_def Let_def split: prod.splits)

text \<open>
  C3. The claim is that every rotation, time-based ones too, resets \<open>currentSize\<close> and
  \<open>currentLines\<close>. On a writer with time rotation on and one record of 19 bytes
  counted, the time tick of the next day rotates (the new file is open) and both
  counters keep their values.
\<close>

theorem time_rotation_keeps_counters:
  "timeRotated (SetRotateLines 3 (SetTimeRotated True ex_writer))
   \<and> ''2015-08-03'' \<noteq> date ex_tc
   \<and> map_option file'
        (result_writer
          (then_daemon
            (then_write (Inr (SetRotateLines 3 (SetTimeRotated True ex_writer), ex_os1))
               INFO ''hello'')
            [(ex_tc, LogSize True), (ex_tc, TimeTick ''2015-08-03'' True)]))
       = Some (Some (File 4 ''app.log.2015-08-01''))
   \<and> map_option currentSize
        (result_writer
          (then_daemon
            (then_write (Inr (SetRotateLines 3 (SetTimeRotated True ex_writer), ex_os1))
               INFO ''hello'')
            [(ex_tc, LogSize True), (ex_tc, TimeTick ''2015-08-03'' True)]))
       = Some 19
   \<and> map_option currentLines
        (result_writer
          (then_daemon
            (then_write (Inr (SetRotateLines 3 (SetTimeRotated True ex_writer), ex_os1))
               INFO ''hello'')
            [(ex_tc, LogSize True), (ex_tc, TimeTick ''2015-08-03'' True)]))
       = Some 1"
  by (simp add: ex_defs file_defs daemon_defs)

text \<open>
  C3, as the code has it. On an open writer, a size from the queue that takes a counter
  of an enabled policy over its threshold rotates: the sequence number goes up by one
  and both counters are zero afterwards. A time tick on a changed date, with time
  rotation on, rotates too: it sets the sequence number to zero and leaves both
  counters as they were.
\<close>

theorem rotation_counter_resets:
  assumes "\<not> closed w" and "blog w = Some b" and "writer b = Some bw"
  shows "(logSizeChan w = sz # q
            \<and> ((sizeRotated w \<and> rotateSize w < wrap64 (currentSize w + sz))
                \<or> (lineRotated w \<and> rotateLines w < wrap64 (currentLines w + 1)))
          \<longrightarrow> (\<exists>w' os'. daemon_step tc (LogSize ok) (w, os) = Inr (Continue (w', os'))
                 \<and> sizeRotateTimes w' = wrap64 (sizeRotateTimes w + 1)
                 \<and> currentSize w' = 0 \<and> currentLines w' = 0))
         \<and> (timeRotated w \<and> now \<noteq> date tc
          \<longrightarrow> (\<exists>w' os'. daemon_step tc (TimeTick now ok) (w, os) = Inr (Continue (w', os'))
                 \<and> sizeRotateTimes w' = 0
                 \<and> currentSize w' = currentSize w \<and> currentLines w' = currentLines w))"
proof (intro conjI impI)
  assume a: "logSizeChan w = sz # q
            \<and> ((sizeRotated w \<and> rotateSize w < wrap64 (currentSize w + sz))
                \<or> (lineRotated w \<and> rotateLines w < wrap64 (currentLines w + 1)))"
  let ?w2 = "w\<lparr>logSizeChan := q, currentSize := wrap64 (currentSize w + sz),
               currentLines := wrap64 (currentLines w + 1),
               sizeRotateTimes := wrap64 (sizeRotateTimes w + 1),
               currentSize := 0, currentLines := 0\<rparr>"
  let ?path = "if timeRotated w
               then fileName w @ ''.'' @ date tc @ ''.''
                      @ itoa (wrap64 (wrap64 (sizeRotateTimes w + 1) + 1))
               else fileName w @ ''.'' @ itoa (wrap64 (wrap64 (sizeRotateTimes w + 1) + 1))"
  have en: "sizeRotated w \<or> lineRotated w" using a by blast
  have step: "daemon_step tc (LogSize ok) (w, os)
              = (case swap_file ?path ok (?w2, os) of Inl e \<Rightarrow> Inl e | Inr s' \<Rightarrow> Inr (Continue s'))"
    using a assms(1) en by (auto simp: daemon_step_def Let_def)
  have "blog ?w2 = Some b" using assms(2) by simp
  from swap_file_eq [OF this assms(3), of ?path ok os] step
  show "\<exists>w' os'. daemon_step tc (LogSize ok) (w, os) = Inr (Continue (w', os'))
                 \<and> sizeRotateTimes w' = wrap64 (sizeRotateTimes w + 1)
                 \<and> currentSize w' = 0 \<and> currentLines w' = 0"
    by simp
next
  assume a: "timeRotated w \<and> now \<noteq> date tc"
  let ?w1 = "w\<lparr>sizeRotateTimes := 0\<rparr>"
  let ?path = "fileName w @ ''.'' @ dateYesterday tc"
  have step: "daemon_step tc (TimeTick now ok) (w, os)
              = (case swap_file ?path ok (?w1, os) of Inl e \<Rightarrow> Inl e | Inr s' \<Rightarrow> Inr (Continue s'))"
    using a assms(1) by (simp add: daemon_step_def Let_def)
  have "blog ?w1 = Some b" using assms(2) by simp
  from swap_file_eq [OF this assms(3), of ?path ok os] step
  show "\<exists>w' os'. daemon_step tc (TimeTick now ok) (w, os) = Inr (Continue (w', os'))
                 \<and> sizeRotateTimes w' = 0
                 \<and> currentSize w' = currentSize w \<and> currentLines w' = currentLines w"
    by simp
qed

theorem rotation_counter_resets_witness:
  "\<not> closed ex_rotating \<and> blog ex_rotating = Some ex_blog
   \<and> writer ex_blog = Some (bufio_NewWriterSize (Some (File 3 ''app.log'')))
   \<and> logSizeChan ex_rotating = [19] \<and> sizeRotated ex_rotating
   \<and> rotateSize ex_rotating < wrap64 (currentSize ex_rotating + 19)
   \<and> (\<exists>w' os'. daemon_step ex_tc (LogSize True) (ex_rotating, ex_os1) = Inr (Continue (w', os'))
         \<and> sizeRotateTimes w' = 1 \<and> currentSize w' = 0 \<and> currentLines w' = 0)
   \<and> timeRotated ex_rotating \<and> ''2015-08-03'' \<noteq> date ex_tc
   \<and> (\<exists>w' os'. daemon_step ex_tc (TimeTick ''2015-08-03'' True) (ex_rotating, ex_os1)
                  = Inr (Continue (w', os'))
         \<and> sizeRotateTimes w' = 0 \<and> currentSize w' = 0 \<and> currentLines w' = 0)"
proof -
  have h1: "\<not> closed ex_rotating" by (simp add: ex_rot_defs)
  have h2: "blog ex_rotating = Some ex_blog" by (simp add: ex_rot_defs)
  have h3: "writer ex_blog = Some (bufio_NewWriterSize (Some (File 3 ''app.log'')))"
    by (simp add: ex_rot_defs)
  have p1: "logSizeChan ex_rotating = [19] \<and> sizeRotated ex_rotating
            \<and> rotateSize ex_rotating < wrap64 (currentSize ex_rotating + 19)"
    by (simp add: ex_rot_defs wrap64_def)
  have p2: "timeRotated ex_rotating \<and> ''2015-08-03'' \<noteq> date ex_tc"
    by (simp add: ex_rot_defs)
  have v: "wrap64 (sizeRotateTimes ex_rotating + 1) = 1" "currentSize ex_rotating = 0"
    "currentLines ex_rotating = 0"
    by (simp_all add: ex_rot_defs wrap64_def)
  note t = rotation_counter_resets [OF h1 h2 h3, of 19 "[]" ex_tc True ex_os1 "''2015-08-03''"]
  from t p1 have c1: "\<exists>w' os'. daemon_step ex_tc (LogSize True) (ex_rotating, ex_os1)
                        = Inr (Continue (w', os'))
         \<and> sizeRotateTimes w' = 1 \<and> currentSize w' = 0 \<and> currentLines w' = 0"
    by (simp add: v)
  from t p2 have c2: "\<exists>w' os'. daemon_step ex_tc (TimeTick ''2015-08-03'' True) (ex_rotating, ex_os1)
                  = Inr (Continue (w', os'))
         \<and> sizeRotateTimes w' = 0 \<and> currentSize w' = 0 \<and> currentLines w' = 0"
    by (simp add: v)
  from h1 h2 h3 p1 p2 c1 c2 show ?thesis by blast
qed

section \<open>The daemon: the names of the rotated files\<close>

lemma wrap64_id: "- (2 ^ 63) \<le> x \<Longrightarrow> x < 2 ^ 63 \<Longrightarrow> wrap64 x = x"
  by (simp add: wrap64_def)

text \<open>
  What the two rotations open. The time rotation opens the base name with the time
  cache's date of yesterday. The size and line rotation increments the sequence number
  and then names the file with the sequence number plus one (behind the current date,
  when time rotation is on): the rotation that takes the sequence number to \<open>N\<close> opens
  the suffix \<open>N + 1\<close>.
\<close>

lemma rotated_file_names:
  assumes "\<not> closed w" and "blog w = Some b" and "writer b = Some bw"
  shows "(timeRotated w \<and> now \<noteq> date tc
          \<longrightarrow> (\<exists>w' os'. daemon_step tc (TimeTick now True) (w, os) = Inr (Continue (w', os'))
                 \<and> file' w' = Some (File (next_fd os) (fileName w @ ''.'' @ dateYesterday tc))))
         \<and> (logSizeChan w = sz # q
            \<and> ((sizeRotated w \<and> rotateSize w < wrap64 (currentSize w + sz))
                \<or> (lineRotated w \<and> rotateLines w < wrap64 (currentLines w + 1)))
            \<and> sizeRotateTimes w + 1 = N \<and> 0 < N \<and> N + 1 < 2 ^ 63
          \<longrightarrow> (\<exists>w' os'. daemon_step tc (LogSize True) (w, os) = Inr (Continue (w', os'))
                 \<and> sizeRotateTimes w' = N
                 \<and> file' w' = Some (File (next_fd os)
                      (if timeRotated w
                       then fileName w @ ''.'' @ date tc @ ''.'' @ itoa (N + 1)
                       else fileName w @ ''.'' @ itoa (N + 1)))))"
proof (intro conjI impI)
  assume a: "timeRotated w \<and> now \<noteq> date tc"
  let ?w1 = "w\<lparr>sizeRotateTimes := 0\<rparr>"
  let ?path = "fileName w @ ''.'' @ dateYesterday tc"
  have step: "daemon_step tc (TimeTick now True) (w, os)
              = (case swap_file ?path True (?w1, os) of Inl e \<Rightarrow> Inl e | Inr s' \<Rightarrow> Inr (Continue s'))"
    using a assms(1) by (simp add: daemon_step_def Let_def)
  have "blog ?w1 = Some b" using assms(2) by simp
  from swap_file_eq [OF this assms(3), of ?path True os] step
  show "\<exists>w' os'. daemon_step tc (TimeTick now True) (w, os) = Inr (Continue (w', os'))
                 \<and> file' w' = Some (File (next_fd os) (fileName w @ ''.'' @ dateYesterday tc))"
    by (simp add: os_OpenFile_def)
next
  assume a: "logSizeChan w = sz # q
            \<and> ((sizeRotated w \<and> rotateSize w < wrap64 (currentSize w + sz))
                \<or> (lineRotated w \<and> rotateLines w < wrap64 (currentLines w + 1)))
            \<and> sizeRotateTimes w + 1 = N \<and> 0 < N \<and> N + 1 < 2 ^ 63"
  have n1: "wrap64 (sizeRotateTimes w + 1) = N"
    using a by (simp add: wrap64_id)
  have n2: "wrap64 (N + 1) = N + 1"
    using a by (simp add: wrap64_id)
  let ?w2 = "w\<lparr>logSizeChan := q, currentSize := wrap64 (currentSize w + sz),
               currentLines := wrap64 (currentLines w + 1),
               sizeRotateTimes := N, currentSize := 0, currentLines := 0\<rparr>"
  let ?path = "if timeRotated w
               then fileName w @ ''.'' @ date tc @ ''.'' @ itoa (N + 1)
               else fileName w @ ''.'' @ itoa (N + 1)"
  have en: "sizeRotated w \<or> lineRotated w" using a by blast
  have step: "daemon_step tc (LogSize True) (w, os)
              = (case swap_file ?path True (?w2, os) of Inl e \<Rightarrow> Inl e | Inr s' \<Rightarrow> Inr (Continue s'))"
    using a assms(1) en n1 n2 by (auto simp: daemon_step_def Let_def)
  have "blog ?w2 = Some b" using assms(2) by simp
  from swap_file_eq [OF this assms(3), of ?path True os] step
  show "\<exists>w' os'. daemon_step tc (LogSize True) (w, os) = Inr (Continue (w', os'))
                 \<and> sizeRotateTimes w' = N
                 \<and> file' w' = Some (File (next_fd os)
                      (if timeRotated w
                       then fileName w @ ''.'' @ date tc @ ''.'' @ itoa (N + 1)
                       else fileName w @ ''.'' @ itoa (N + 1)))"
    by (simp add: os_OpenFile_def)
qed

lemma rotated_file_names_example:
  "\<not> closed ex_rotating \<and> blog ex_rotating = Some ex_blog
   \<and> writer ex_blog = Some (bufio_NewWriterSize (Some (File 3 ''app.log'')))
   \<and> timeRotated ex_rotating \<and> ''2015-08-03'' \<noteq> date ex_tc
   \<and> (\<exists>w' os'. daemon_step ex_tc (TimeTick ''2015-08-03'' True) (ex_rotating, ex_os1)
                  = Inr (Continue (w', os'))
         \<and> file' w' = Some (File 4 ''app.log.2015-08-01''))
   \<and> logSizeChan ex_rotating = [19] \<and> sizeRotated ex_rotating
   \<and> rotateSize ex_rotating < wrap64 (currentSize ex_rotating + 19)
   \<and> sizeRotateTimes ex_rotating + 1 = 1
   \<and> (\<exists>w' os'. daemon_step ex_tc (LogSize True) (ex_rotating, ex_os1) = Inr (Continue (w', os'))
         \<and> sizeRotateTimes w' = 1 \<and> file' w' = Some (File 4 ''app.log.2015-08-02.2''))"
proof -
  have h1: "\<not> closed ex_rotating" by (simp add: ex_rot_defs)
  have h2: "blog ex_rotating = Some ex_blog" by (simp add: ex_rot_defs)
  have h3: "writer ex_blog = Some (bufio_NewWriterSize (Some (File 3 ''app.log'')))"
    by (simp add: ex_rot_defs)
  have p1: "timeRotated ex_rotating \<and> ''2015-08-03'' \<noteq> date ex_tc"
    by (simp add: ex_rot_defs)
  have p2: "logSizeChan ex_rotating = [19] \<and> sizeRotated ex_rotating
            \<and> rotateSize ex_rotating < wrap64 (currentSize ex_rotating + 19)
            \<and> sizeRotateTimes ex_rotating + 1 = 1"
    by (simp add: ex_rot_defs wrap64_def)
  have v: "fileName ex_rotating = ''app.log''" "next_fd ex_os1 = 4"
    "dateYesterday ex_tc = ''2015-08-01''" "date ex_tc = ''2015-08-02''" "itoa 2 = ''2''"
    by (simp_all add: ex_rot_defs ex_os1_def itoa_def digits.simps)
  note t = rotated_file_names [OF h1 h2 h3, of "''2015-08-03''" ex_tc ex_os1 19 "[]" 1]
  from t p1 have c1: "\<exists>w' os'. daemon_step ex_tc (TimeTick ''2015-08-03'' True) (ex_rotating, ex_os1)
                  = Inr (Continue (w', os'))
         \<and> file' w' = Some (File 4 ''app.log.2015-08-01'')"
    by (simp add: v)
  from t p1 p2 have c2: "\<exists>w' os'. daemon_step ex_tc (LogSize True) (ex_rotating, ex_os1)
                  = Inr (Continue (w', os'))
         \<and> sizeRotateTimes w' = 1 \<and> file' w' = Some (File 4 ''app.log.2015-08-02.2'')"
    by (simp add: v)
  from h1 h2 h3 p1 p2 c1 c2 show ?thesis by blast
qed

text \<open>
  C5. The claim is that the \<open>N\<close>th size or line rotation uses \<open>N\<close> as the suffix.
  On a fresh writer for \<open>app.log\<close> with size rotation at 10 bytes, the first rotation
  takes the sequence number to 1 and opens \<open>app.log.2\<close>, not \<open>app.log.1\<close>.
\<close>

theorem first_size_rotation_has_suffix_2:
  "map_option sizeRotateTimes
     (result_writer
       (then_daemon (then_write (Inr (SetRotateSize 10 ex_writer, ex_os1)) INFO ''hello'')
          [(ex_tc, LogSize True)]))
     = Some 1
   \<and> map_option file'
     (result_writer
       (then_daemon (then_write (Inr (SetRotateSize 10 ex_writer, ex_os1)) INFO ''hello'')
          [(ex_tc, LogSize True)]))
     = Some (Some (File 4 ''app.log.2''))
   \<and> ''app.log.2'' \<noteq> ''app.log'' @ ''.'' @ itoa 1"
  by (simp add: ex_defs file_defs daemon_defs)

section \<open>The daemon: a rotation whose open fails\<close>

text \<open>
  C6. The claim is that a failed open leaves the writer on its current file. In the
  code the error of \<open>os.OpenFile\<close> is discarded and the swap goes on: after the failed
  rotation the old file is closed (no descriptor is open), the writer holds a nil file,
  and the buffered writer sits on a nil sink. The next record, written and flushed,
  reaches no file: \<open>app.log\<close> still ends with the first record, and the flush has put
  the buffered writer in its error state.
\<close>

theorem failed_open_loses_the_writer:
  "result_contents ex_failed_rotation ''app.log'' = Some (''10:00 [INFO] hello'' @ [EOL])
   \<and> map_option file' (result_writer ex_failed_rotation) = Some None
   \<and> map_option open_fds (result_os ex_failed_rotation) = Some {}
   \<and> map_option blog (result_writer ex_failed_rotation)
       = Some (Some \<lparr>level = DEBUG, in' = None,
                       writer = Some \<lparr>buf = [], err = False, wr = None\<rparr>\<rparr>)
   \<and> result_contents
         (then_daemon (then_write ex_failed_rotation INFO ''world'') [(ex_tc, FlushTick)])
         ''app.log''
       = Some (''10:00 [INFO] hello'' @ [EOL])
   \<and> map_option blog
         (result_writer
           (then_daemon (then_write ex_failed_rotation INFO ''world'') [(ex_tc, FlushTick)]))
       = Some (Some \<lparr>level = DEBUG, in' = None,
                       writer = Some \<lparr>buf = ''10:00 [INFO] world'' @ [EOL], err = True,
                                       wr = None\<rparr>\<rparr>)"
  by (simp add: ex_failed_rotation_def result_contents_def ex_defs file_defs daemon_defs)

section \<open>Close\<close>

text \<open>The example writer with a record in its buffer is what \<open>write\<close> returns.\<close>

lemma write_example:
  "baseFileWriter_write ex_prefix ex_tc (SetRotateLines 3 ex_writer) INFO ''hello'' = Inr ex_logged"
  by (simp add: ex_logged_def ex_defs file_defs daemon_defs)



section \<open>The daemon: when the counters cross the thresholds\<close>











end
